theory Spec2Isabelle
  imports Main "HOL-Library.Word"
begin

text \<open>
  A model of \<open>script.js\<close> of the Student Registration System: the validation helpers
  and \<open>validateForm\<close>, the array \<open>students\<close> with its mirror in \<open>localStorage\<close>, the
  edit index, and the handlers that add, update and delete records.  The platform functions
  the script calls (\<open>trim\<close>, \<open>RegExp.test\<close>, \<open>findIndex\<close>, \<open>splice\<close>,
  \<open>JSON.stringify\<close>, \<open>JSON.parse\<close>) are modelled after ECMA-262.
\<close>

section \<open>JavaScript strings\<close>

text \<open>
  A JavaScript string is a sequence of UTF-16 code units; \<open>.length\<close>, \<open>===\<close>, \<open>trim\<close>
  and the regular expressions of \<open>script.js\<close> (none has the \<open>u\<close> flag) all work on
  code units.  \<open>js\<close> embeds an ASCII literal of the source.
\<close>

type_synonym code_unit = "16 word"
type_synonym jsstring = "code_unit list"

definition cu :: "char \<Rightarrow> code_unit" where
  "cu c = of_nat (of_char c)"

definition js :: "string \<Rightarrow> jsstring" where
  "js s = map cu s"

text \<open>
  The class \<open>\s\<close> of a regular expression, which is also the set \<open>trim\<close> strips:
  WhiteSpace and LineTerminator of ECMA-262.
\<close>

definition isWhiteSpace :: "code_unit \<Rightarrow> bool" where
  "isWhiteSpace c \<longleftrightarrow>
     (0x09 \<le> c \<and> c \<le> 0x0D) \<or> c = 0x20 \<or> c = 0xA0 \<or> c = 0x1680 \<or>
     (0x2000 \<le> c \<and> c \<le> 0x200A) \<or> c = 0x2028 \<or> c = 0x2029 \<or> c = 0x202F \<or>
     c = 0x205F \<or> c = 0x3000 \<or> c = 0xFEFF"

definition isDigit :: "code_unit \<Rightarrow> bool" where
  "isDigit c \<longleftrightarrow> 0x30 \<le> c \<and> c \<le> 0x39"

definition isLetter :: "code_unit \<Rightarrow> bool" where
  "isLetter c \<longleftrightarrow> (0x41 \<le> c \<and> c \<le> 0x5A) \<or> (0x61 \<le> c \<and> c \<le> 0x7A)"

definition trim :: "jsstring \<Rightarrow> jsstring" where
  "trim s = rev (dropWhile isWhiteSpace (rev (dropWhile isWhiteSpace s)))"

section \<open>Regular expressions\<close>

text \<open>
  The four patterns of the source use character classes, concatenation and \<open>+\<close> between
  \<open>^\<close> and \<open>$\<close>; \<open>test\<close> on such a pattern succeeds exactly when the whole string is
  in its language, which the derivative decides.
\<close>

datatype rx =
    Nothing
  | Empty
  | Cls "code_unit \<Rightarrow> bool"
  | Alt rx rx
  | Cat rx rx
  | Star rx

fun nullable :: "rx \<Rightarrow> bool" where
  "nullable Nothing = False"
| "nullable Empty = True"
| "nullable (Cls p) = False"
| "nullable (Alt r s) = (nullable r \<or> nullable s)"
| "nullable (Cat r s) = (nullable r \<and> nullable s)"
| "nullable (Star r) = True"

fun deriv :: "code_unit \<Rightarrow> rx \<Rightarrow> rx" where
  "deriv c Nothing = Nothing"
| "deriv c Empty = Nothing"
| "deriv c (Cls p) = (if p c then Empty else Nothing)"
| "deriv c (Alt r s) = Alt (deriv c r) (deriv c s)"
| "deriv c (Cat r s) =
     (if nullable r then Alt (Cat (deriv c r) s) (deriv c s) else Cat (deriv c r) s)"
| "deriv c (Star r) = Cat (deriv c r) (Star r)"

fun rx_test :: "rx \<Rightarrow> jsstring \<Rightarrow> bool" where
  "rx_test r [] = nullable r"
| "rx_test r (c # cs) = rx_test (deriv c r) cs"

definition Plus :: "rx \<Rightarrow> rx" where
  "Plus r = Cat r (Star r)"

section \<open>Validation helpers\<close>

text \<open>
  \<^verbatim>\<open>isLettersOnly = (str) => /^[A-Za-z\s]+$/.test(str.trim())\<close>,
  \<^verbatim>\<open>isDigitsOnly = (str) => /^\d+$/.test(str)\<close>,
  \<^verbatim>\<open>isValidEmail = (str) => /^[^\s@]+@[^\s@]+\.[^\s@]+$/.test(str.trim())\<close>,
  \<^verbatim>\<open>minDigits = (str, n) => str.replace(/\D/g, "").length >= n\<close>.
\<close>

definition isLettersOnly :: "jsstring \<Rightarrow> bool" where
  "isLettersOnly str = rx_test (Plus (Cls (\<lambda>c. isLetter c \<or> isWhiteSpace c))) (trim str)"

definition isDigitsOnly :: "jsstring \<Rightarrow> bool" where
  "isDigitsOnly str = rx_test (Plus (Cls isDigit)) str"

definition notSpaceAt :: "code_unit \<Rightarrow> bool" where
  "notSpaceAt c \<longleftrightarrow> \<not> isWhiteSpace c \<and> c \<noteq> 0x40"

definition isValidEmail :: "jsstring \<Rightarrow> bool" where
  "isValidEmail str =
     rx_test (Cat (Plus (Cls notSpaceAt))
               (Cat (Cls (\<lambda>c. c = 0x40))
                 (Cat (Plus (Cls notSpaceAt))
                   (Cat (Cls (\<lambda>c. c = 0x2E)) (Plus (Cls notSpaceAt))))))
             (trim str)"

definition minDigits :: "jsstring \<Rightarrow> nat \<Rightarrow> bool" where
  "minDigits str n \<longleftrightarrow> n \<le> length (filter isDigit str)"

section \<open>Application state\<close>

text \<open>
  A payload is the object \<open>{ name, studentId, email, contact }\<close> the handlers build.
  \<open>students\<close> is a JavaScript array: a write beyond its end extends it and leaves holes,
  so an element is a slot, \<open>None\<close> being a hole.  The state holds the two variables of
  the script, the item \<open>"students"\<close> of \<open>localStorage\<close> (\<open>None\<close> when the key is absent)
  and the text of the four error elements.  The table, the form fields and the visibility
  of the buttons are output only and are left out; \<open>render\<close> changes nothing else.
\<close>

record student =
  name :: jsstring
  studentId :: jsstring
  email :: jsstring
  contact :: jsstring

type_synonym slot = "student option"

record app =
  students :: "slot list"
  editIndex :: "nat option"
  storage :: "jsstring option"
  nameError :: string
  studentIdError :: string
  emailError :: string
  contactError :: string

datatype error_element = NameErr | StudentIdErr | EmailErr | ContactErr

datatype js_error = TypeError | SyntaxError

fun setError :: "error_element \<Rightarrow> string \<Rightarrow> app \<Rightarrow> app" where
  "setError NameErr msg st = st\<lparr>nameError := msg\<rparr>"
| "setError StudentIdErr msg st = st\<lparr>studentIdError := msg\<rparr>"
| "setError EmailErr msg st = st\<lparr>emailError := msg\<rparr>"
| "setError ContactErr msg st = st\<lparr>contactError := msg\<rparr>"

definition clearErrors :: "app \<Rightarrow> app" where
  "clearErrors st =
     st\<lparr>nameError := [], studentIdError := [], emailError := [], contactError := []\<rparr>"

text \<open>
  \<^verbatim>\<open>students.findIndex((s, idx) => s.studentId === studentId && idx !== editIndex)\<close>
  visits every index below the length, holes too; at a hole \<open>s\<close> is \<open>undefined\<close> and
  reading \<open>s.studentId\<close> throws a TypeError.  \<open>Inr None\<close> is the result \<open>-1\<close>.
\<close>

fun findIndex :: "nat \<Rightarrow> slot list \<Rightarrow> jsstring \<Rightarrow> nat option \<Rightarrow> js_error + nat option" where
  "findIndex k [] sid e = Inr None"
| "findIndex k (None # xs) sid e = Inl TypeError"
| "findIndex k (Some s # xs) sid e =
     (if studentId s = sid \<and> Some k \<noteq> e then Inr (Some k) else findIndex (Suc k) xs sid e)"

text \<open>
  \<open>validateForm\<close> returns its boolean, or the error it throws, with the state it leaves.
\<close>

definition validateForm :: "student \<Rightarrow> app \<Rightarrow> (js_error + bool) \<times> app" where
  "validateForm payload st0 =
     (let st = clearErrors st0 in
      if name payload = [] \<or> studentId payload = [] \<or> email payload = [] \<or> contact payload = []
      then
        (let st = (if name payload = [] then setError NameErr ''Name is required.'' st else st);
             st = (if studentId payload = []
                   then setError StudentIdErr ''Student ID is required.'' st else st);
             st = (if email payload = [] then setError EmailErr ''Email is required.'' st else st);
             st = (if contact payload = []
                   then setError ContactErr ''Contact number is required.'' st else st)
         in (Inr False, st))
      else if \<not> isLettersOnly (name payload)
      then (Inr False, setError NameErr ''Only letters and spaces are allowed.'' st)
      else if \<not> isDigitsOnly (studentId payload)
      then (Inr False, setError StudentIdErr ''Student ID must contain digits only.'' st)
      else if \<not> isValidEmail (email payload)
      then (Inr False, setError EmailErr ''Please enter a valid email address.'' st)
      else if \<not> isDigitsOnly (contact payload)
      then (Inr False, setError ContactErr ''Contact number must contain digits only.'' st)
      else if \<not> minDigits (contact payload) 10
      then (Inr False, setError ContactErr ''Contact number must have at least 10 digits.'' st)
      else
        (case findIndex 0 (students st) (studentId payload) (editIndex st) of
           Inl err \<Rightarrow> (Inl err, st)
         | Inr (Some duplicateIndex) \<Rightarrow>
             (Inr False, setError StudentIdErr ''This Student ID already exists.'' st)
         | Inr None \<Rightarrow> (Inr True, st)))"

section \<open>JSON\<close>

text \<open>
  \<open>JSON.stringify\<close> and \<open>JSON.parse\<close> are the platform's (ECMA-262, ECMA-404).  A parsed
  value is a \<open>json\<close>; an object lists its members as the text writes them.  A number
  \<open>JNum m e\<close> stands for the decimal \<open>m * 10 ^ e\<close> of its literal; the script only ever
  asks whether it is falsy, that is whether the nearest double is zero.
\<close>

datatype json =
    JNull
  | JBool bool
  | JNum int int
  | JStr jsstring
  | JArr "json list"
  | JObj "(jsstring \<times> json) list"

definition rounds_to_zero :: "int \<Rightarrow> int \<Rightarrow> bool" where
  "rounds_to_zero m e \<longleftrightarrow> (if 0 \<le> e then m = 0 else \<bar>m\<bar> * 2 ^ 1075 \<le> 10 ^ nat (- e))"

fun ToBoolean :: "json \<Rightarrow> bool" where
  "ToBoolean JNull = False"
| "ToBoolean (JBool b) = b"
| "ToBoolean (JNum m e) = (\<not> rounds_to_zero m e)"
| "ToBoolean (JStr s) = (s \<noteq> [])"
| "ToBoolean (JArr xs) = True"
| "ToBoolean (JObj ms) = True"

subsection \<open>Serialising the record array\<close>

definition hexDigit :: "nat \<Rightarrow> code_unit" where
  "hexDigit n = (if n < 10 then 0x30 + of_nat n else 0x57 + of_nat n)"

definition UnicodeEscape :: "code_unit \<Rightarrow> jsstring" where
  "UnicodeEscape c =
     [0x5C, 0x75, hexDigit (unat c div 4096), hexDigit (unat c div 256 mod 16),
      hexDigit (unat c div 16 mod 16), hexDigit (unat c mod 16)]"

definition isLeadingSurrogate :: "code_unit \<Rightarrow> bool" where
  "isLeadingSurrogate c \<longleftrightarrow> 0xD800 \<le> c \<and> c \<le> 0xDBFF"

definition isTrailingSurrogate :: "code_unit \<Rightarrow> bool" where
  "isTrailingSurrogate c \<longleftrightarrow> 0xDC00 \<le> c \<and> c \<le> 0xDFFF"

definition quoteUnit :: "code_unit \<Rightarrow> jsstring" where
  "quoteUnit c =
     (if c = 0x08 then [0x5C, 0x62]
      else if c = 0x09 then [0x5C, 0x74]
      else if c = 0x0A then [0x5C, 0x6E]
      else if c = 0x0C then [0x5C, 0x66]
      else if c = 0x0D then [0x5C, 0x72]
      else if c = 0x22 then [0x5C, 0x22]
      else if c = 0x5C then [0x5C, 0x5C]
      else if c < 0x20 \<or> isLeadingSurrogate c \<or> isTrailingSurrogate c then UnicodeEscape c
      else [c])"

text \<open>
  QuoteJSONString walks the code points of the string: a leading surrogate followed by a
  trailing one is a pair and is copied, any other surrogate is escaped.
\<close>

fun quoteUnits :: "jsstring \<Rightarrow> jsstring" where
  "quoteUnits [] = []"
| "quoteUnits [c] = quoteUnit c"
| "quoteUnits (c # d # r) =
     (if isLeadingSurrogate c \<and> isTrailingSurrogate d then c # d # quoteUnits r
      else quoteUnit c @ quoteUnits (d # r))"

definition QuoteJSONString :: "jsstring \<Rightarrow> jsstring" where
  "QuoteJSONString s = 0x22 # quoteUnits s @ [0x22]"

definition stringify_member :: "string \<Rightarrow> jsstring \<Rightarrow> jsstring" where
  "stringify_member k v = QuoteJSONString (js k) @ 0x3A # QuoteJSONString v"

definition stringify_student :: "student \<Rightarrow> jsstring" where
  "stringify_student s =
     0x7B # stringify_member ''name'' (name s) @
     0x2C # stringify_member ''studentId'' (studentId s) @
     0x2C # stringify_member ''email'' (email s) @
     0x2C # stringify_member ''contact'' (contact s) @ [0x7D]"

fun stringify_slot :: "slot \<Rightarrow> jsstring" where
  "stringify_slot None = js ''null''"
| "stringify_slot (Some s) = stringify_student s"

fun join_comma :: "jsstring list \<Rightarrow> jsstring" where
  "join_comma [] = []"
| "join_comma [x] = x"
| "join_comma (x # y # ys) = x @ 0x2C # join_comma (y # ys)"

definition JSON_stringify :: "slot list \<Rightarrow> jsstring" where
  "JSON_stringify xs = 0x5B # join_comma (map stringify_slot xs) @ [0x5D]"

subsection \<open>Parsing\<close>

definition isJsonSpace :: "code_unit \<Rightarrow> bool" where
  "isJsonSpace c \<longleftrightarrow> c = 0x20 \<or> c = 0x09 \<or> c = 0x0A \<or> c = 0x0D"

definition skip_ws :: "jsstring \<Rightarrow> jsstring" where
  "skip_ws s = dropWhile isJsonSpace s"

definition hexValue :: "code_unit \<Rightarrow> nat option" where
  "hexValue c =
     (if 0x30 \<le> c \<and> c \<le> 0x39 then Some (unat c - 0x30)
      else if 0x61 \<le> c \<and> c \<le> 0x66 then Some (unat c - 0x57)
      else if 0x41 \<le> c \<and> c \<le> 0x46 then Some (unat c - 0x37)
      else None)"

definition hex4 :: "code_unit \<Rightarrow> code_unit \<Rightarrow> code_unit \<Rightarrow> code_unit \<Rightarrow> code_unit option" where
  "hex4 a b c d =
     (case (hexValue a, hexValue b, hexValue c, hexValue d) of
        (Some p, Some q, Some r, Some s) \<Rightarrow> Some (of_nat (p * 4096 + q * 256 + r * 16 + s))
      | _ \<Rightarrow> None)"

definition unescape :: "code_unit \<Rightarrow> code_unit option" where
  "unescape e =
     (if e = 0x22 then Some 0x22
      else if e = 0x5C then Some 0x5C
      else if e = 0x2F then Some 0x2F
      else if e = 0x62 then Some 0x08
      else if e = 0x66 then Some 0x0C
      else if e = 0x6E then Some 0x0A
      else if e = 0x72 then Some 0x0D
      else if e = 0x74 then Some 0x09
      else None)"

definition consOpt :: "code_unit \<Rightarrow> (jsstring \<times> jsstring) option \<Rightarrow> (jsstring \<times> jsstring) option" where
  "consOpt c r = map_option (\<lambda>(t, rest). (c # t, rest)) r"

text \<open>The characters of a string after its opening quote, up to the closing one.\<close>

fun lex_chars :: "jsstring \<Rightarrow> (jsstring \<times> jsstring) option" where
  "lex_chars [] = None"
| "lex_chars (c # r) =
     (if c = 0x22 then Some ([], r)
      else if c = 0x5C then
        (case r of
           [] \<Rightarrow> None
         | e # r1 \<Rightarrow>
             if e = 0x75 then
               (case r1 of
                  h1 # h2 # h3 # h4 # r2 \<Rightarrow>
                    (case hex4 h1 h2 h3 h4 of
                       None \<Rightarrow> None
                     | Some u \<Rightarrow> consOpt u (lex_chars r2))
                | _ \<Rightarrow> None)
             else
               (case unescape e of
                  None \<Rightarrow> None
                | Some u \<Rightarrow> consOpt u (lex_chars r1)))
      else if c < 0x20 then None
      else consOpt c (lex_chars r))"

definition digitsValue :: "jsstring \<Rightarrow> int" where
  "digitsValue ds = foldl (\<lambda>a d. 10 * a + (uint d - 0x30)) 0 ds"

text \<open>
  A number: \<open>-? (0 | [1-9][0-9]*) (. [0-9]+)? ([eE] [+-]? [0-9]+)?\<close>.
\<close>

definition lex_int :: "jsstring \<Rightarrow> (jsstring \<times> jsstring) option" where
  "lex_int s =
     (case s of
        [] \<Rightarrow> None
      | c # r \<Rightarrow>
          if c = 0x30 then Some ([c], r)
          else if isDigit c then Some (c # takeWhile isDigit r, dropWhile isDigit r)
          else None)"

definition lex_frac :: "jsstring \<Rightarrow> (jsstring \<times> jsstring) option" where
  "lex_frac s =
     (case s of
        [] \<Rightarrow> Some ([], s)
      | c # r \<Rightarrow>
          if c = 0x2E then
            (if takeWhile isDigit r = [] then None
             else Some (takeWhile isDigit r, dropWhile isDigit r))
          else Some ([], s))"

definition lex_exp :: "jsstring \<Rightarrow> (int \<times> jsstring) option" where
  "lex_exp s =
     (case s of
        [] \<Rightarrow> Some (0, s)
      | c # r \<Rightarrow>
          if c = 0x65 \<or> c = 0x45 then
            (let neg = (case r of [] \<Rightarrow> False | g # _ \<Rightarrow> g = 0x2D);
                 r1 = (case r of [] \<Rightarrow> r | g # t \<Rightarrow> if g = 0x2D \<or> g = 0x2B then t else r)
             in if takeWhile isDigit r1 = [] then None
                else Some ((if neg then - digitsValue (takeWhile isDigit r1)
                            else digitsValue (takeWhile isDigit r1)),
                           dropWhile isDigit r1))
          else Some (0, s))"

definition lex_number :: "jsstring \<Rightarrow> (json \<times> jsstring) option" where
  "lex_number s =
     (let neg = (case s of [] \<Rightarrow> False | c # _ \<Rightarrow> c = 0x2D);
          s1 = (if neg then tl s else s)
      in case lex_int s1 of
           None \<Rightarrow> None
         | Some (ds, s2) \<Rightarrow>
             (case lex_frac s2 of
                None \<Rightarrow> None
              | Some (fs, s3) \<Rightarrow>
                  (case lex_exp s3 of
                     None \<Rightarrow> None
                   | Some (x, s4) \<Rightarrow>
                       Some (JNum ((if neg then - 1 else 1) * digitsValue (ds @ fs))
                                  (x - int (length fs)), s4))))"

text \<open>A member's key and its colon: \<open>ws string ws :\<close>.\<close>

definition object_key :: "jsstring \<Rightarrow> (jsstring \<times> jsstring) option" where
  "object_key s =
     (case skip_ws s of
        [] \<Rightarrow> None
      | c # r \<Rightarrow>
          if c = 0x22 then
            (case lex_chars r of
               None \<Rightarrow> None
             | Some (k, r1) \<Rightarrow>
                 (case skip_ws r1 of
                    [] \<Rightarrow> None
                  | d # r2 \<Rightarrow> if d = 0x3A then Some (k, r2) else None))
          else None)"

text \<open>
  The parser keeps the arrays and objects it is inside of on a stack.  In mode \<open>Value\<close>
  it expects a value; in mode \<open>After v\<close> it has just read the value \<open>v\<close> and places it
  in the innermost open array or object.  A step either goes on (\<open>Inl\<close>) or ends with the
  parsed value, or with \<open>None\<close> for a syntax error (\<open>Inr\<close>).
\<close>

datatype frame = InArr "json list" | InObj "(jsstring \<times> json) list" jsstring

datatype mode = Value | After json

type_synonym config = "mode \<times> frame list \<times> jsstring"

definition value_step :: "frame list \<Rightarrow> jsstring \<Rightarrow> config + json option" where
  "value_step stk s =
     (case skip_ws s of
        [] \<Rightarrow> Inr None
      | c # r \<Rightarrow>
          if c = 0x7B then
            (case skip_ws r of
               [] \<Rightarrow> Inr None
             | d # r1 \<Rightarrow>
                 if d = 0x7D then Inl (After (JObj []), stk, r1)
                 else (case object_key r of
                         None \<Rightarrow> Inr None
                       | Some (k, r2) \<Rightarrow> Inl (Value, InObj [] k # stk, r2)))
          else if c = 0x5B then
            (case skip_ws r of
               [] \<Rightarrow> Inr None
             | d # r1 \<Rightarrow>
                 if d = 0x5D then Inl (After (JArr []), stk, r1)
                 else Inl (Value, InArr [] # stk, r))
          else if c = 0x22 then
            (case lex_chars r of
               None \<Rightarrow> Inr None
             | Some (t, r1) \<Rightarrow> Inl (After (JStr t), stk, r1))
          else if c = 0x2D \<or> isDigit c then
            (case lex_number (c # r) of
               None \<Rightarrow> Inr None
             | Some (v, r1) \<Rightarrow> Inl (After v, stk, r1))
          else if take 4 (c # r) = js ''true'' then Inl (After (JBool True), stk, drop 4 (c # r))
          else if take 5 (c # r) = js ''false'' then Inl (After (JBool False), stk, drop 5 (c # r))
          else if take 4 (c # r) = js ''null'' then Inl (After JNull, stk, drop 4 (c # r))
          else Inr None)"

definition after_step :: "json \<Rightarrow> frame list \<Rightarrow> jsstring \<Rightarrow> config + json option" where
  "after_step v stk s =
     (case stk of
        [] \<Rightarrow> Inr (if skip_ws s = [] then Some v else None)
      | InArr acc # stk1 \<Rightarrow>
          (case skip_ws s of
             [] \<Rightarrow> Inr None
           | c # r \<Rightarrow>
               if c = 0x2C then Inl (Value, InArr (v # acc) # stk1, r)
               else if c = 0x5D then Inl (After (JArr (rev (v # acc))), stk1, r)
               else Inr None)
      | InObj acc k # stk1 \<Rightarrow>
          (case skip_ws s of
             [] \<Rightarrow> Inr None
           | c # r \<Rightarrow>
               if c = 0x2C then
                 (case object_key r of
                    None \<Rightarrow> Inr None
                  | Some (k1, r1) \<Rightarrow> Inl (Value, InObj ((k, v) # acc) k1 # stk1, r1))
               else if c = 0x7D then Inl (After (JObj (rev ((k, v) # acc))), stk1, r)
               else Inr None))"

fun parse_step :: "config \<Rightarrow> config + json option" where
  "parse_step (Value, stk, s) = value_step stk s"
| "parse_step (After v, stk, s) = after_step v stk s"

lemma lex_chars_length: "lex_chars s = Some (t, rest) \<Longrightarrow> length rest < length s"
proof (induction "length s" arbitrary: s t rest rule: less_induct)
  case less
  show ?case
  proof (cases s)
    case Nil
    with less.prems show ?thesis by simp
  next
    case (Cons c r)
    have IH: "length rest' < length s'" if "lex_chars s' = Some (t', rest')" "length s' < length s"
      for s' t' rest'
      using less.hyps [OF that(2) that(1)] .
    from less.prems Cons show ?thesis
      by (auto simp: consOpt_def split: if_splits list.splits option.splits dest!: IH)
  qed
qed

lemma skip_ws_length: "length (skip_ws s) \<le> length s"
  by (simp add: skip_ws_def length_dropWhile_le)

lemma skip_ws_Cons_length: "skip_ws s = c # r \<Longrightarrow> length r < length s"
  using skip_ws_length [of s] by simp

lemma object_key_length: "object_key s = Some (k, rest) \<Longrightarrow> length rest < length s"
  unfolding object_key_def
  by (auto split: list.splits option.splits if_splits
        dest!: lex_chars_length skip_ws_Cons_length)

lemma lex_int_length: "lex_int s = Some (ds, rest) \<Longrightarrow> length rest < length s"
  unfolding lex_int_def
  by (auto split: list.splits if_splits simp: less_Suc_eq_le length_dropWhile_le)

lemma lex_frac_length: "lex_frac s = Some (fs, rest) \<Longrightarrow> length rest \<le> length s"
  unfolding lex_frac_def
  by (auto split: list.splits if_splits simp: le_SucI length_dropWhile_le)

lemma lex_exp_length: "lex_exp s = Some (x, rest) \<Longrightarrow> length rest \<le> length s"
  unfolding lex_exp_def Let_def
  by (auto split: list.splits if_splits simp: le_SucI length_dropWhile_le)

lemma lex_number_length:
  assumes "lex_number s = Some (v, rest)"
  shows "length rest < length s"
proof -
  define s1 where "s1 = (if (case s of [] \<Rightarrow> False | c # _ \<Rightarrow> c = 0x2D) then tl s else s)"
  have s1: "length s1 \<le> length s"
    by (simp add: s1_def)
  from assms obtain ds s2 fs s3 x where
    "lex_int s1 = Some (ds, s2)" "lex_frac s2 = Some (fs, s3)" "lex_exp s3 = Some (x, rest)"
    unfolding lex_number_def Let_def s1_def
    by (auto split: option.splits)
  then have "length s2 < length s1" "length s3 \<le> length s2" "length rest \<le> length s3"
    by (auto dest: lex_int_length lex_frac_length lex_exp_length)
  with s1 show ?thesis by linarith
qed

lemma value_step_length:
  assumes "value_step stk s = Inl (m, stk', rest)"
  shows "length rest < length s"
proof (cases "skip_ws s")
  case Nil
  with assms show ?thesis by (simp add: value_step_def)
next
  case (Cons c r)
  then have r: "length r < length s"
    by (rule skip_ws_Cons_length)
  then have cr: "length (c # r) \<le> length s"
    by simp
  have num: "length rest < length s" if "lex_number (c # r) = Some (v, rest)" for v
    using lex_number_length [OF that] cr by linarith
  from assms Cons r num show ?thesis
    unfolding value_step_def
    by (auto split: list.splits option.splits if_splits
          dest!: lex_chars_length object_key_length skip_ws_Cons_length)
qed

lemma after_step_length:
  assumes "after_step v stk s = Inl (m, stk', rest)"
  shows "length rest < length s"
  using assms unfolding after_step_def
  by (auto split: list.splits frame.splits option.splits if_splits
        dest!: object_key_length skip_ws_Cons_length)

lemma parse_step_length:
  "parse_step c = Inl c' \<Longrightarrow> length (snd (snd c')) < length (snd (snd c))"
  by (cases c rule: parse_step.cases; cases c')
     (auto dest: value_step_length after_step_length)

function drive :: "config \<Rightarrow> json option" where
  "drive c = (case parse_step c of Inr result \<Rightarrow> result | Inl c' \<Rightarrow> drive c')"
  by pat_completeness auto
termination
  by (relation "measure (\<lambda>c. length (snd (snd c)))") (auto dest: parse_step_length)

declare drive.simps [simp del]

text \<open>\<open>JSON.parse\<close>: the value, or the SyntaxError it throws.\<close>

definition JSON_parse :: "jsstring \<Rightarrow> js_error + json" where
  "JSON_parse text =
     (case drive (Value, [], text) of None \<Rightarrow> Inl SyntaxError | Some v \<Rightarrow> Inr v)"

section \<open>The script\<close>

subsection \<open>Persist and load\<close>

text \<open>
  \<^verbatim>\<open>localStorage.setItem("students", JSON.stringify(students))\<close> and
  \<^verbatim>\<open>try { return JSON.parse(localStorage.getItem("students")) || []; } catch { return []; }\<close>.
  \<open>getItem\<close> gives \<open>null\<close> for an absent key, which \<open>JSON.parse\<close> reads as the text
  \<open>null\<close>.  Storage that refuses the write (quota, disabled) is not modelled.
\<close>

definition saveStudents :: "app \<Rightarrow> app" where
  "saveStudents st = st\<lparr>storage := Some (JSON_stringify (students st))\<rparr>"

definition loadStudents :: "jsstring option \<Rightarrow> json" where
  "loadStudents item =
     (case JSON_parse (case item of None \<Rightarrow> js ''null'' | Some text \<Rightarrow> text) of
        Inl err \<Rightarrow> JArr []
      | Inr v \<Rightarrow> if ToBoolean v then v else JArr [])"

text \<open>The value of a payload object and of the array, as \<open>JSON.parse\<close> would build them.\<close>

definition json_of_student :: "student \<Rightarrow> json" where
  "json_of_student s =
     JObj [(js ''name'', JStr (name s)), (js ''studentId'', JStr (studentId s)),
           (js ''email'', JStr (email s)), (js ''contact'', JStr (contact s))]"

fun json_of_slot :: "slot \<Rightarrow> json" where
  "json_of_slot None = JNull"
| "json_of_slot (Some s) = json_of_student s"

subsection \<open>Edit state and CRUD\<close>

text \<open>
  \<open>startEdit\<close> assigns \<open>editIndex\<close> before it reads \<open>s.name\<close>, which throws when
  \<open>students[index]\<close> is \<open>undefined\<close>; the assignment stays.
\<close>

definition startEdit :: "nat \<Rightarrow> app \<Rightarrow> app" where
  "startEdit index st =
     (let st1 = st\<lparr>editIndex := Some index\<rparr> in
      if index < length (students st) \<and> students st ! index \<noteq> None
      then clearErrors st1 else st1)"

definition resetEditState :: "app \<Rightarrow> app" where
  "resetEditState st = clearErrors (st\<lparr>editIndex := None\<rparr>)"

definition addStudent :: "student \<Rightarrow> app \<Rightarrow> app" where
  "addStudent payload st = saveStudents (st\<lparr>students := students st @ [Some payload]\<rparr>)"

text \<open>\<open>students[editIndex] = payload\<close>: beyond the end the array grows, with holes between.\<close>

definition array_set :: "slot list \<Rightarrow> nat \<Rightarrow> slot \<Rightarrow> slot list" where
  "array_set xs i v =
     (if i < length xs then xs[i := v] else xs @ replicate (i - length xs) None @ [v])"

definition updateStudent :: "student \<Rightarrow> app \<Rightarrow> app" where
  "updateStudent payload st =
     (case editIndex st of
        None \<Rightarrow> st
      | Some i \<Rightarrow>
          resetEditState (saveStudents (st\<lparr>students := array_set (students st) i (Some payload)\<rparr>)))"

text \<open>\<open>students.splice(index, 1)\<close> removes nothing when \<open>index\<close> is not below the length.\<close>

definition splice1 :: "nat \<Rightarrow> 'a list \<Rightarrow> 'a list" where
  "splice1 index xs = take index xs @ drop (Suc index) xs"

definition deleteStudent :: "nat \<Rightarrow> bool \<Rightarrow> app \<Rightarrow> app" where
  "deleteStudent index confirmed st =
     (if \<not> confirmed then st
      else saveStudents (st\<lparr>students := splice1 index (students st)\<rparr>))"

subsection \<open>Event handlers\<close>

text \<open>
  Both handlers build the payload from the trimmed form fields, here the record \<open>input\<close>.
  An error thrown by \<open>validateForm\<close> ends the handler like a refusal.
\<close>

definition payload_of :: "student \<Rightarrow> student" where
  "payload_of input =
     \<lparr>name = trim (name input), studentId = trim (studentId input),
      email = trim (email input), contact = trim (contact input)\<rparr>"

definition onSubmit :: "student \<Rightarrow> app \<Rightarrow> app" where
  "onSubmit input st =
     (case validateForm (payload_of input) st of
        (Inr True, st1) \<Rightarrow> clearErrors (addStudent (payload_of input) st1)
      | (_, st1) \<Rightarrow> st1)"

definition onUpdateClick :: "student \<Rightarrow> app \<Rightarrow> app" where
  "onUpdateClick input st =
     (case validateForm (payload_of input) st of
        (Inr True, st1) \<Rightarrow> updateStudent (payload_of input) st1
      | (_, st1) \<Rightarrow> st1)"

datatype event =
    Submit student
  | UpdateClick student
  | EditClick nat
  | DeleteClick nat bool
  | CancelClick

fun handle :: "event \<Rightarrow> app \<Rightarrow> app" where
  "handle (Submit input) st = onSubmit input st"
| "handle (UpdateClick input) st = onUpdateClick input st"
| "handle (EditClick index) st = startEdit index st"
| "handle (DeleteClick index confirmed) st = deleteStudent index confirmed st"
| "handle CancelClick st = resetEditState st"

definition run :: "event list \<Rightarrow> app \<Rightarrow> app" where
  "run evs st = fold handle evs st"

text \<open>The script started on an empty collection.\<close>

definition initial :: app where
  "initial =
     \<lparr>students = [], editIndex = None, storage = None,
      nameError = [], studentIdError = [], emailError = [], contactError = []\<rparr>"

text \<open>
  The specification adds records only while no edit is in progress.  \<open>idle_submits\<close>
  says of a sequence of events that each of its submits finds \<open>editIndex\<close> at \<open>null\<close>.
\<close>

fun idle_submit :: "event \<Rightarrow> app \<Rightarrow> bool" where
  "idle_submit (Submit input) st \<longleftrightarrow> editIndex st = None"
| "idle_submit ev st \<longleftrightarrow> True"

fun idle_submits :: "event list \<Rightarrow> app \<Rightarrow> bool" where
  "idle_submits [] st \<longleftrightarrow> True"
| "idle_submits (ev # evs) st \<longleftrightarrow> idle_submit ev st \<and> idle_submits evs (handle ev st)"

section \<open>The validation order in the words of the specification\<close>

text \<open>
  The specification lists the checks in a fixed priority order and says that validation
  stops at the first one that fails and reports that check's messages only.
\<close>

datatype check =
    Presence
  | NameFormat
  | IdentifierFormat
  | EmailFormat
  | ContactFormat
  | ContactMinLength
  | IdentifierUniqueness

definition check_order :: "check list" where
  "check_order =
     [Presence, NameFormat, IdentifierFormat, EmailFormat, ContactFormat, ContactMinLength,
      IdentifierUniqueness]"

definition other_has_identifier :: "slot list \<Rightarrow> jsstring \<Rightarrow> nat option \<Rightarrow> bool" where
  "other_has_identifier xs sid e \<longleftrightarrow>
     list_ex (\<lambda>(k, x). case x of None \<Rightarrow> False | Some s \<Rightarrow> studentId s = sid \<and> Some k \<noteq> e)
       (enumerate 0 xs)"

fun violated :: "check \<Rightarrow> student \<Rightarrow> slot list \<Rightarrow> nat option \<Rightarrow> bool" where
  "violated Presence p xs e \<longleftrightarrow>
     name p = [] \<or> studentId p = [] \<or> email p = [] \<or> contact p = []"
| "violated NameFormat p xs e \<longleftrightarrow> \<not> isLettersOnly (name p)"
| "violated IdentifierFormat p xs e \<longleftrightarrow> \<not> isDigitsOnly (studentId p)"
| "violated EmailFormat p xs e \<longleftrightarrow> \<not> isValidEmail (email p)"
| "violated ContactFormat p xs e \<longleftrightarrow> \<not> isDigitsOnly (contact p)"
| "violated ContactMinLength p xs e \<longleftrightarrow> \<not> minDigits (contact p) 10"
| "violated IdentifierUniqueness p xs e \<longleftrightarrow> other_has_identifier xs (studentId p) e"

fun messages :: "check \<Rightarrow> student \<Rightarrow> (error_element \<times> string) list" where
  "messages Presence p =
     (if name p = [] then [(NameErr, ''Name is required.'')] else []) @
     (if studentId p = [] then [(StudentIdErr, ''Student ID is required.'')] else []) @
     (if email p = [] then [(EmailErr, ''Email is required.'')] else []) @
     (if contact p = [] then [(ContactErr, ''Contact number is required.'')] else [])"
| "messages NameFormat p = [(NameErr, ''Only letters and spaces are allowed.'')]"
| "messages IdentifierFormat p = [(StudentIdErr, ''Student ID must contain digits only.'')]"
| "messages EmailFormat p = [(EmailErr, ''Please enter a valid email address.'')]"
| "messages ContactFormat p = [(ContactErr, ''Contact number must contain digits only.'')]"
| "messages ContactMinLength p =
     [(ContactErr, ''Contact number must have at least 10 digits.'')]"
| "messages IdentifierUniqueness p = [(StudentIdErr, ''This Student ID already exists.'')]"

definition show_messages :: "(error_element \<times> string) list \<Rightarrow> app \<Rightarrow> app" where
  "show_messages ms st = fold (\<lambda>(el, msg). setError el msg) ms (clearErrors st)"

definition validate_in_order :: "student \<Rightarrow> app \<Rightarrow> bool \<times> app" where
  "validate_in_order p st =
     (case find (\<lambda>c. violated c p (students st) (editIndex st)) check_order of
        None \<Rightarrow> (True, clearErrors st)
      | Some c \<Rightarrow> (False, show_messages (messages c p) st))"

section \<open>Records in the store\<close>

text \<open>The identifiers of the records of an array, and a payload that passes the field checks.\<close>

fun ids :: "slot list \<Rightarrow> jsstring list" where
  "ids [] = []"
| "ids (None # xs) = ids xs"
| "ids (Some s # xs) = studentId s # ids xs"


text \<open>
  Reading a parsed value back as records: \<open>property\<close> is the member access \<open>v[key]\<close>
  (the last member of that name wins), and a record is an object whose four properties are
  strings.
\<close>

fun property :: "jsstring \<Rightarrow> json \<Rightarrow> json option" where
  "property key (JObj ms) = map_of (rev ms) key"
| "property key v = None"

definition student_of_json :: "json \<Rightarrow> student option" where
  "student_of_json v =
     (case (property (js ''name'') v, property (js ''studentId'') v,
            property (js ''email'') v, property (js ''contact'') v) of
        (Some (JStr a), Some (JStr b), Some (JStr c), Some (JStr d)) \<Rightarrow>
          Some \<lparr>name = a, studentId = b, email = c, contact = d\<rparr>
      | _ \<Rightarrow> None)"

fun collect :: "student option list \<Rightarrow> student list option" where
  "collect [] = Some []"
| "collect (None # xs) = None"
| "collect (Some s # xs) = map_option ((#) s) (collect xs)"

fun students_of_json :: "json \<Rightarrow> student list option" where
  "students_of_json (JArr vs) = collect (map student_of_json vs)"
| "students_of_json v = None"

text \<open>A persisted text is corrupt when it does not hold an array of records.\<close>

definition corrupt :: "jsstring \<Rightarrow> bool" where
  "corrupt text \<longleftrightarrow>
     (case JSON_parse text of Inl err \<Rightarrow> True | Inr v \<Rightarrow> students_of_json v = None)"

section \<open>Example data\<close>

definition ann :: student where
  "ann = \<lparr>name = js ''Ann Lee'', studentId = js ''1001'', email = js ''a@b.com'',
           contact = js ''5551234567''\<rparr>"

definition bob :: student where
  "bob = \<lparr>name = js ''Bob Ray'', studentId = js ''1002'', email = js ''bob@c.org'',
           contact = js ''5559876543''\<rparr>"

definition cy :: student where
  "cy = \<lparr>name = js ''Cy Wu'', studentId = js ''1003'', email = js ''cy@d.net'',
          contact = js ''5550001111''\<rparr>"




text \<open>States of the script and form inputs used as examples.\<close>

definition one_student :: app where
  "one_student =
     \<lparr>students = [Some ann], editIndex = None, storage = Some (JSON_stringify [Some ann]),
      nameError = [], studentIdError = [], emailError = [], contactError = []\<rparr>"

definition editing_first :: app where
  "editing_first =
     \<lparr>students = [Some ann, Some bob], editIndex = Some 0,
      storage = Some (JSON_stringify [Some ann, Some bob]),
      nameError = [], studentIdError = [], emailError = [], contactError = []\<rparr>"

definition blank_name_and_email :: student where
  "blank_name_and_email = \<lparr>name = [], studentId = js ''1001'', email = [], contact = js ''123''\<rparr>"



section \<open>Lemmas on validation\<close>

lemma findIndex_Inr_None:
  "findIndex k xs sid e = Inr None \<longleftrightarrow>
     None \<notin> set xs \<and> (\<forall>j < length xs. \<forall>s. xs ! j = Some s \<longrightarrow> studentId s = sid \<longrightarrow> Some (k + j) = e)"
proof (induction k xs sid e rule: findIndex.induct)
  case (1 k sid e)
  then show ?case by simp
next
  case (2 k xs sid e)
  then show ?case by simp
next
  case (3 k s xs sid e)
  show ?case
  proof (cases "studentId s = sid \<and> Some k \<noteq> e")
    case True
    then show ?thesis by fastforce
  next
    case False
    with 3 show ?thesis
      by (auto simp: less_Suc_eq_0_disj)
  qed
qed

lemma findIndex_Inr_Some:
  "None \<notin> set xs \<Longrightarrow> findIndex k xs sid e \<noteq> Inr None \<Longrightarrow> \<exists>d. findIndex k xs sid e = Inr (Some d)"
  by (induction k xs sid e rule: findIndex.induct) auto

lemma other_has_identifier_iff:
  "other_has_identifier xs sid e \<longleftrightarrow>
     (\<exists>k < length xs. \<exists>s. xs ! k = Some s \<and> studentId s = sid \<and> Some k \<noteq> e)"
proof
  assume "other_has_identifier xs sid e"
  then show "\<exists>k < length xs. \<exists>s. xs ! k = Some s \<and> studentId s = sid \<and> Some k \<noteq> e"
    unfolding other_has_identifier_def list_ex_iff
    by (auto simp: in_set_enumerate_eq split: option.splits)
next
  assume "\<exists>k < length xs. \<exists>s. xs ! k = Some s \<and> studentId s = sid \<and> Some k \<noteq> e"
  then obtain k s where k: "k < length xs" "xs ! k = Some s" "studentId s = sid" "Some k \<noteq> e"
    by blast
  then have "(k, Some s) \<in> set (enumerate 0 xs)"
    by (simp add: in_set_enumerate_eq)
  with k show "other_has_identifier xs sid e"
    unfolding other_has_identifier_def list_ex_iff
    by (intro bexI [of _ "(k, Some s)"]) simp_all
qed

lemma findIndex_duplicate:
  assumes "None \<notin> set xs"
  shows "(\<exists>d. findIndex 0 xs sid e = Inr (Some d)) \<longleftrightarrow> other_has_identifier xs sid e"
proof -
  have "findIndex 0 xs sid e = Inr None \<longleftrightarrow> \<not> other_has_identifier xs sid e"
    using assms by (auto simp: findIndex_Inr_None other_has_identifier_iff)
  with findIndex_Inr_Some [OF assms, of 0 sid e] show ?thesis
    by auto
qed

lemma validateForm_store:
  "students (snd (validateForm p st)) = students st \<and>
   editIndex (snd (validateForm p st)) = editIndex st \<and>
   storage (snd (validateForm p st)) = storage st"
  by (simp add: validateForm_def clearErrors_def Let_def split: sum.splits option.splits)

lemma clearErrors_store [simp]:
  "students (clearErrors st) = students st"
  "editIndex (clearErrors st) = editIndex st"
  "storage (clearErrors st) = storage st"
  by (simp_all add: clearErrors_def)


lemma ids_no_holes: "None \<notin> set xs \<Longrightarrow> ids xs = map (\<lambda>x. studentId (the x)) xs"
  by (induction xs rule: ids.induct) auto



section \<open>Identifiers stay distinct while submits are idle\<close>

lemma ids_append: "ids (xs @ ys) = ids xs @ ids ys"
  by (induction xs rule: ids.induct) simp_all

lemma ids_replicate_None: "ids (replicate n None) = []"
  by (induction n) simp_all

lemma ids_member:
  "sid \<in> set (ids xs) \<longleftrightarrow> (\<exists>j < length xs. \<exists>s. xs ! j = Some s \<and> studentId s = sid)"
proof (induction xs rule: ids.induct)
  case 1
  show ?case by simp
next
  case (2 xs)
  then show ?case
    by (auto simp: less_Suc_eq_0_disj)
next
  case (3 s xs)
  then show ?case
    by (auto simp: less_Suc_eq_0_disj)
qed

lemma distinct_list_update:
  assumes "distinct ys" and "\<forall>j < length ys. j \<noteq> i \<longrightarrow> ys ! j \<noteq> v"
  shows "distinct (ys[i := v])"
proof (cases "i < length ys")
  case False
  then have "length ys \<le> i"
    by simp
  then have "ys[i := v] = ys"
    by (rule list_update_beyond)
  with assms(1) show ?thesis
    by simp
next
  case True
  show ?thesis
    unfolding distinct_conv_nth
  proof (intro allI impI)
    fix a b
    assume a: "a < length (ys[i := v])" and b: "b < length (ys[i := v])" and ab: "a \<noteq> b"
    with assms(1) have "ys ! a \<noteq> ys ! b"
      by (simp add: nth_eq_iff_index_eq)
    with a b ab assms(2) True show "ys[i := v] ! a \<noteq> ys[i := v] ! b"
      by (cases "a = i"; cases "b = i") (auto simp: nth_list_update)
  qed
qed

lemma array_set_keeps_distinct:
  assumes "findIndex 0 xs (studentId p) (Some i) = Inr None" and "distinct (ids xs)"
  shows "distinct (ids (array_set xs i (Some p)))"
proof -
  from assms(1) have holes: "None \<notin> set xs"
    and only: "\<forall>j < length xs. \<forall>s. xs ! j = Some s \<longrightarrow> studentId s = studentId p \<longrightarrow> j = i"
    by (simp_all add: findIndex_Inr_None)
  show ?thesis
  proof (cases "i < length xs")
    case False
    with only have "studentId p \<notin> set (ids xs)"
      by (auto simp: ids_member)
    with False assms(2) show ?thesis
      by (simp add: array_set_def ids_append ids_replicate_None)
  next
    case True
    let ?f = "\<lambda>x. studentId (the x)"
    from holes have "None \<notin> set (xs[i := Some p])"
      by (auto dest: set_update_subset_insert [THEN subsetD])
    then have "ids (xs[i := Some p]) = (map ?f xs)[i := studentId p]"
      by (simp add: ids_no_holes map_update)
    moreover have "distinct (map ?f xs)"
      using holes assms(2) by (simp add: ids_no_holes)
    moreover have "\<forall>j < length (map ?f xs). j \<noteq> i \<longrightarrow> map ?f xs ! j \<noteq> studentId p"
    proof (intro allI impI)
      fix j
      assume j: "j < length (map ?f xs)" "j \<noteq> i"
      with holes obtain s where "xs ! j = Some s"
        by (cases "xs ! j") (auto simp: in_set_conv_nth)
      with j only show "map ?f xs ! j \<noteq> studentId p"
        by auto
    qed
    ultimately show ?thesis
      using True by (simp add: array_set_def distinct_list_update)
  qed
qed

lemma splice1_keeps_distinct:
  assumes "distinct (ids xs)"
  shows "distinct (ids (splice1 i xs))"
proof (cases "i < length xs")
  case False
  with assms show ?thesis
    by (simp add: splice1_def)
next
  case True
  then have "xs = take i xs @ xs ! i # drop (Suc i) xs"
    by (simp add: id_take_nth_drop)
  then have "ids xs = ids (take i xs) @ ids [xs ! i] @ ids (drop (Suc i) xs)"
    by (metis append_Cons append_Nil ids_append)
  with assms show ?thesis
    by (auto simp: splice1_def ids_append)
qed

lemma validateForm_accepts:
  assumes "validateForm p st = (Inr True, st1)"
  shows "findIndex 0 (students st) (studentId p) (editIndex st) = Inr None"
  using assms
  by (auto simp: validateForm_def Let_def split: if_splits sum.splits option.splits)

lemma handle_keeps_distinct:
  assumes "distinct (ids (students st))" and "idle_submit ev st"
  shows "distinct (ids (students (handle ev st)))"
proof (cases ev)
  case (Submit input)
  obtain res st1 where v: "validateForm (payload_of input) st = (res, st1)"
    by (cases "validateForm (payload_of input) st")
  from validateForm_store [of "payload_of input" st] v
  have st1: "students st1 = students st"
    by simp
  show ?thesis
  proof (cases "res = Inr True")
    case False
    with v have "onSubmit input st = st1"
      by (auto simp: onSubmit_def split: sum.splits bool.splits)
    with Submit st1 assms(1) show ?thesis
      by simp
  next
    case True
    with v assms(2) Submit
    have "findIndex 0 (students st) (studentId (payload_of input)) None = Inr None"
      by (auto dest: validateForm_accepts)
    then have "studentId (payload_of input) \<notin> set (ids (students st))"
      by (auto simp: findIndex_Inr_None ids_member)
    with True v st1 assms(1) Submit show ?thesis
      by (simp add: onSubmit_def addStudent_def saveStudents_def ids_append)
  qed
next
  case (UpdateClick input)
  obtain res st1 where v: "validateForm (payload_of input) st = (res, st1)"
    by (cases "validateForm (payload_of input) st")
  from validateForm_store [of "payload_of input" st] v
  have st1: "students st1 = students st" "editIndex st1 = editIndex st"
    by simp_all
  show ?thesis
  proof (cases "res = Inr True")
    case False
    with v have "onUpdateClick input st = st1"
      by (auto simp: onUpdateClick_def split: sum.splits bool.splits)
    with UpdateClick st1 assms(1) show ?thesis
      by simp
  next
    case True
    show ?thesis
    proof (cases "editIndex st")
      case None
      with True v st1 assms(1) UpdateClick show ?thesis
        by (simp add: onUpdateClick_def updateStudent_def)
    next
      case (Some i)
      with True v have "findIndex 0 (students st) (studentId (payload_of input)) (Some i) = Inr None"
        by (auto dest: validateForm_accepts)
      from array_set_keeps_distinct [OF this assms(1)] True v st1 Some UpdateClick show ?thesis
        by (simp add: onUpdateClick_def updateStudent_def resetEditState_def saveStudents_def)
    qed
  qed
next
  case (EditClick index)
  with assms(1) show ?thesis
    by (simp add: startEdit_def Let_def)
next
  case (DeleteClick index confirmed)
  with assms(1) show ?thesis
    by (simp add: deleteStudent_def saveStudents_def splice1_keeps_distinct)
next
  case CancelClick
  with assms(1) show ?thesis
    by (simp add: resetEditState_def)
qed

lemma idle_submits_keep_identifiers_distinct:
  "distinct (ids (students st)) \<Longrightarrow> idle_submits evs st \<Longrightarrow>
   distinct (ids (students (run evs st)))"
  unfolding run_def
  by (induction evs arbitrary: st) (simp_all add: handle_keeps_distinct)

lemma initial_identifiers_distinct:
  "idle_submits evs initial \<Longrightarrow> distinct (ids (students (run evs initial)))"
  by (rule idle_submits_keep_identifiers_distinct) (simp_all add: initial_def)

section \<open>Lemmas on parsing what was serialised\<close>

lemma unat_hexDigit: "n < 16 \<Longrightarrow> unat (hexDigit n) = (if n < 10 then 48 + n else 87 + n)"
proof -
  assume n: "n < 16"
  have "hexDigit n = of_nat (if n < 10 then 48 + n else 87 + n)"
    by (simp add: hexDigit_def)
  moreover have "unat (of_nat k :: code_unit) = k" if "k < 65536" for k
    using that by (simp add: unat_of_nat)
  ultimately show ?thesis
    using n by simp
qed

lemma hexValue_hexDigit: "n < 16 \<Longrightarrow> hexValue (hexDigit n) = Some n"
  by (simp add: hexValue_def word_le_nat_alt unat_hexDigit)

lemma hex_digits_sum:
  fixes n :: nat
  shows "n div 4096 * 4096 + n div 256 mod 16 * 256 + n div 16 mod 16 * 16 + n mod 16 = n"
proof -
  have a: "n mod 256 = 16 * (n div 16 mod 16) + n mod 16"
    using mod_mult2_eq [of n 16 16] by simp
  have b: "n mod 4096 = 256 * (n div 256 mod 16) + n mod 256"
    using mod_mult2_eq [of n 256 16] by simp
  have c: "n = 4096 * (n div 4096) + n mod 4096"
    by simp
  from a b c show ?thesis
    by linarith
qed

lemma hex4_UnicodeEscape:
  "hex4 (hexDigit (unat c div 4096)) (hexDigit (unat c div 256 mod 16))
        (hexDigit (unat c div 16 mod 16)) (hexDigit (unat c mod 16)) = Some c"
proof -
  have "unat c < 2 ^ 16"
    using unsigned_less [of c, where ?'a = nat] by simp
  then have "unat c div 4096 < 16"
    by simp
  then show ?thesis
    by (simp add: hex4_def hexValue_hexDigit hex_digits_sum)
qed

lemma lex_chars_plain:
  "\<not> c < 0x20 \<Longrightarrow> c \<noteq> 0x22 \<Longrightarrow> c \<noteq> 0x5C \<Longrightarrow> lex_chars (c # t) = consOpt c (lex_chars t)"
  by simp

lemma lex_chars_escape:
  "e \<noteq> 0x75 \<Longrightarrow>
   lex_chars (0x5C # e # t) =
     (case unescape e of None \<Rightarrow> None | Some u \<Rightarrow> consOpt u (lex_chars t))"
  by simp

lemma lex_chars_UnicodeEscape: "lex_chars (UnicodeEscape c @ t) = consOpt c (lex_chars t)"
  by (simp add: UnicodeEscape_def hex4_UnicodeEscape)

lemma lex_chars_quoteUnit: "lex_chars (quoteUnit c @ t) = consOpt c (lex_chars t)"
  by (simp add: quoteUnit_def lex_chars_UnicodeEscape lex_chars_escape unescape_def
        lex_chars_plain del: lex_chars.simps)

lemma surrogate_plain:
  "isLeadingSurrogate c \<or> isTrailingSurrogate c \<Longrightarrow> \<not> c < 0x20 \<and> c \<noteq> 0x22 \<and> c \<noteq> 0x5C"
  by (auto simp: isLeadingSurrogate_def isTrailingSurrogate_def word_le_nat_alt word_less_nat_alt)

lemma lex_chars_quoteUnits: "lex_chars (quoteUnits s @ 0x22 # rest) = Some (s, rest)"
proof (induction s rule: quoteUnits.induct)
  case 1
  show ?case by simp
next
  case (2 c)
  show ?case
    by (simp add: lex_chars_quoteUnit consOpt_def del: lex_chars.simps) simp
next
  case (3 c d r)
  show ?case
  proof (cases "isLeadingSurrogate c \<and> isTrailingSurrogate d")
    case True
    then have "lex_chars (c # d # quoteUnits r @ 0x22 # rest) =
        consOpt c (consOpt d (lex_chars (quoteUnits r @ 0x22 # rest)))"
      using surrogate_plain [of c] surrogate_plain [of d]
      by (simp add: lex_chars_plain del: lex_chars.simps)
    with True 3 show ?thesis
      by (simp add: consOpt_def del: lex_chars.simps)
  next
    case False
    then have "quoteUnits (c # d # r) = quoteUnit c @ quoteUnits (d # r)"
      by auto
    with False 3 show ?thesis
      by (simp add: lex_chars_quoteUnit consOpt_def del: lex_chars.simps quoteUnits.simps)
  qed
qed

lemma drive_Inl: "parse_step c = Inl c' \<Longrightarrow> drive c = drive c'"
  by (subst drive.simps) simp

lemma drive_Inr: "parse_step c = Inr result \<Longrightarrow> drive c = result"
  by (subst drive.simps) simp

lemma skip_ws_Cons: "\<not> isJsonSpace c \<Longrightarrow> skip_ws (c # r) = c # r"
  by (simp add: skip_ws_def)

lemma QuoteJSONString_append:
  "QuoteJSONString v @ rest = 0x22 # quoteUnits v @ 0x22 # rest"
  by (simp add: QuoteJSONString_def)

lemma value_step_string:
  "value_step stk (QuoteJSONString v @ rest) = Inl (After (JStr v), stk, rest)"
  by (simp add: value_step_def QuoteJSONString_append skip_ws_Cons isJsonSpace_def
        lex_chars_quoteUnits del: lex_chars.simps)

lemma object_key_member:
  "object_key (stringify_member k v @ rest) = Some (js k, QuoteJSONString v @ rest)"
  by (simp add: object_key_def stringify_member_def QuoteJSONString_append skip_ws_Cons
        isJsonSpace_def lex_chars_quoteUnits del: lex_chars.simps)

lemma value_step_object:
  "value_step stk (0x7B # stringify_member k v @ rest) =
     Inl (Value, InObj [] (js k) # stk, QuoteJSONString v @ rest)"
proof -
  have "skip_ws (stringify_member k v @ rest) = 0x22 # tl (stringify_member k v @ rest)"
    by (simp add: stringify_member_def QuoteJSONString_append skip_ws_Cons isJsonSpace_def)
  then show ?thesis
    by (simp add: value_step_def skip_ws_Cons isJsonSpace_def object_key_member)
qed

lemma after_step_next_member:
  "after_step v (InObj acc k # stk) (0x2C # stringify_member k' v' @ rest) =
     Inl (Value, InObj ((k, v) # acc) (js k') # stk, QuoteJSONString v' @ rest)"
  by (simp add: after_step_def skip_ws_Cons isJsonSpace_def object_key_member)

lemma after_step_close_object:
  "after_step v (InObj acc k # stk) (0x7D # rest) =
     Inl (After (JObj (rev ((k, v) # acc))), stk, rest)"
  by (simp add: after_step_def skip_ws_Cons isJsonSpace_def)

lemma after_step_next_element:
  "after_step v (InArr acc # stk) (0x2C # rest) = Inl (Value, InArr (v # acc) # stk, rest)"
  by (simp add: after_step_def skip_ws_Cons isJsonSpace_def)

lemma after_step_close_array:
  "after_step v (InArr acc # stk) (0x5D # rest) = Inl (After (JArr (rev (v # acc))), stk, rest)"
  by (simp add: after_step_def skip_ws_Cons isJsonSpace_def)

lemma drive_student:
  "drive (Value, stk, stringify_student s @ rest) = drive (After (json_of_student s), stk, rest)"
  by (simp add: stringify_student_def json_of_student_def drive_Inl value_step_object
        value_step_string after_step_next_member after_step_close_object)

lemma js_null: "js ''null'' = [0x6E, 0x75, 0x6C, 0x6C]"
  by (simp add: js_def cu_def)

lemma value_step_null: "value_step stk (js ''null'' @ rest) = Inl (After JNull, stk, rest)"
  by (simp add: value_step_def js_null skip_ws_Cons isJsonSpace_def isDigit_def js_def cu_def)

lemma drive_slot:
  "drive (Value, stk, stringify_slot x @ rest) = drive (After (json_of_slot x), stk, rest)"
  by (cases x) (simp_all add: drive_student drive_Inl value_step_null)

lemma drive_elements:
  "xs \<noteq> [] \<Longrightarrow>
   drive (Value, InArr acc # stk, join_comma (map stringify_slot xs) @ 0x5D # rest) =
     drive (After (JArr (rev acc @ map json_of_slot xs)), stk, rest)"
proof (induction xs arbitrary: acc)
  case Nil
  then show ?case by simp
next
  case (Cons x xs)
  show ?case
  proof (cases xs)
    case Nil
    then show ?thesis
      by (simp add: drive_slot drive_Inl after_step_close_array)
  next
    case (Cons y ys)
    with Cons.IH [of "json_of_slot x # acc"] show ?thesis
      by (simp add: drive_slot drive_Inl after_step_next_element)
  qed
qed

lemma stringify_slot_first:
  "\<exists>d r. stringify_slot x @ rest = d # r \<and> \<not> isJsonSpace d \<and> d \<noteq> 0x5D"
  by (cases x) (simp_all add: js_null stringify_student_def isJsonSpace_def)

lemma join_comma_first:
  assumes "xs \<noteq> []"
  shows "\<exists>d r. join_comma (map stringify_slot xs) @ rest = d # r \<and> \<not> isJsonSpace d \<and> d \<noteq> 0x5D"
proof (cases xs)
  case Nil
  with assms show ?thesis by simp
next
  case (Cons x ys)
  then show ?thesis
    using stringify_slot_first [of x rest] stringify_slot_first [of x "0x2C # join_comma (map stringify_slot ys) @ rest"]
    by (cases ys) auto
qed

lemma JSON_parse_stringify: "JSON_parse (JSON_stringify xs) = Inr (JArr (map json_of_slot xs))"
proof (cases "xs = []")
  case True
  have "value_step [] [0x5B, 0x5D] = Inl (After (JArr []), [], [])"
    by (simp add: value_step_def skip_ws_Cons isJsonSpace_def)
  moreover have "after_step (JArr []) [] [] = Inr (Some (JArr []))"
    by (simp add: after_step_def skip_ws_def)
  ultimately show ?thesis
    using True by (simp add: JSON_parse_def JSON_stringify_def drive_Inl drive_Inr)
next
  case False
  let ?body = "join_comma (map stringify_slot xs) @ [0x5D]"
  from join_comma_first [OF False, of "[0x5D]"] obtain d r where
    "?body = d # r" "\<not> isJsonSpace d" "d \<noteq> 0x5D"
    by blast
  then have "value_step [] (0x5B # ?body) = Inl (Value, [InArr []], ?body)"
    by (simp add: value_step_def skip_ws_Cons isJsonSpace_def)
  moreover have "drive (Value, [InArr []], ?body) = drive (After (JArr (map json_of_slot xs)), [], [])"
    using drive_elements [OF False, of "[]" "[]" "[]"] by simp
  moreover have "after_step v [] [] = Inr (Some v)" for v
    by (simp add: after_step_def skip_ws_def)
  ultimately show ?thesis
    by (simp add: JSON_parse_def JSON_stringify_def drive_Inl drive_Inr)
qed

lemma student_of_json_of_student: "student_of_json (json_of_student s) = Some s"
  by (simp add: student_of_json_def json_of_student_def js_def cu_def)

lemma collect_map_Some: "collect (map Some R) = Some R"
  by (induction R) simp_all

lemma JSON_parse_error: "JSON_parse t = Inl err \<Longrightarrow> err = SyntaxError"
  by (simp add: JSON_parse_def split: option.splits)

lemma JSON_parse_null: "JSON_parse (js ''null'') = Inr JNull"
  by code_simp

lemma falsy_values:
  "\<not> ToBoolean v \<longleftrightarrow>
     v = JNull \<or> v = JBool False \<or> (\<exists>m e. v = JNum m e \<and> rounds_to_zero m e) \<or> v = JStr []"
  by (cases v) auto

section \<open>The example states are reachable\<close>

lemma one_student_reachable: "run [Submit ann] initial = one_student"
  by code_simp

lemma editing_first_reachable: "run [Submit ann, Submit bob, EditClick 0] initial = editing_first"
  by code_simp







section \<open>Claims\<close>

text \<open>
  Claim C1.  In every state reached from the empty collection by validated adds, committed
  edits and deletes, no two records have the same identifier; a candidate that passes
  validation and is inserted leaves the identifiers pairwise distinct.  The submit handler
  runs \<open>validateForm\<close> with whatever \<open>editIndex\<close> holds: after one add and a click on
  Edit, submitting the same record again passes the duplicate scan, which skips position
  0, and the array then holds the identifier twice.
\<close>

theorem submit_while_editing_duplicates:
  "editIndex (run [Submit ann, EditClick 0] initial) = Some 0 \<and>
   fst (validateForm (payload_of ann) (run [Submit ann, EditClick 0] initial)) = Inr True \<and>
   students (run [Submit ann, EditClick 0, Submit ann] initial) = [Some ann, Some ann] \<and>
   \<not> distinct (ids (students (run [Submit ann, EditClick 0, Submit ann] initial)))"
  by code_simp

text \<open>
  Claim C2.  For every sequence \<open>R\<close> of records, saving \<open>R\<close> and loading it back gives
  the array of the same records in the same order.
\<close>

theorem load_save_roundtrip:
  "loadStudents (storage (saveStudents (st\<lparr>students := map Some R\<rparr>))) =
     JArr (map json_of_student R) \<and>
   students_of_json (loadStudents (storage (saveStudents (st\<lparr>students := map Some R\<rparr>)))) =
     Some R"
proof -
  have "loadStudents (storage (saveStudents (st\<lparr>students := map Some R\<rparr>))) =
      JArr (map json_of_student R)"
    by (simp add: loadStudents_def saveStudents_def JSON_parse_stringify comp_def)
  moreover have "map student_of_json (map json_of_student R) = map Some R"
    by (simp add: student_of_json_of_student comp_def)
  ultimately show ?thesis
    by (simp add: collect_map_Some del: map_map)
qed

text \<open>
  Claim C3.  For every persisted value that is missing, corrupt or unparsable, load returns
  the empty sequence and raises no error.  As stated this fails: the texts below are
  corrupt, they parse, and load returns the number and the lone object they denote.
\<close>

theorem load_corrupt_counterexample:
  "corrupt (js ''42'') \<and> loadStudents (Some (js ''42'')) = JNum 42 0 \<and>
   loadStudents (Some (js ''42'')) \<noteq> JArr [] \<and>
   corrupt (stringify_student ann) \<and>
   loadStudents (Some (stringify_student ann)) = json_of_student ann"
  by code_simp

text \<open>
  Claim C3, amended.  For every persisted value that is missing, unparsable, or that parses
  to a falsy value, load returns the empty sequence and raises no error.
\<close>

theorem load_missing_or_unparsable:
  assumes "item = None \<or>
     (\<exists>text. item = Some text \<and>
        (JSON_parse text = Inl SyntaxError \<or> (\<exists>v. JSON_parse text = Inr v \<and> \<not> ToBoolean v)))"
  shows "loadStudents item = JArr []"
  using assms by (auto simp: loadStudents_def JSON_parse_null)

theorem load_missing_or_unparsable_witness:
  "loadStudents None = JArr [] \<and>
   JSON_parse (js ''not json'') = Inl SyntaxError \<and> loadStudents (Some (js ''not json'')) = JArr [] \<and>
   JSON_parse (js ''0'') = Inr (JNum 0 0) \<and> \<not> ToBoolean (JNum 0 0) \<and>
   loadStudents (Some (js ''0'')) = JArr []"
proof -
  have p: "JSON_parse (js ''not json'') = Inl SyntaxError"
    by code_simp
  have z: "JSON_parse (js ''0'') = Inr (JNum 0 0)" and f: "\<not> ToBoolean (JNum 0 0)"
    by code_simp+
  have "loadStudents None = JArr []"
    by (rule load_missing_or_unparsable) simp
  moreover have "loadStudents (Some (js ''not json'')) = JArr []"
    by (rule load_missing_or_unparsable) (simp add: p)
  moreover have "loadStudents (Some (js ''0'')) = JArr []"
    by (rule load_missing_or_unparsable) (use z f in simp)
  ultimately show ?thesis
    using p z f by simp
qed

text \<open>
  Claim C4.  For every candidate record and record sequence, validation applies its checks
  in the fixed order presence, name format, identifier format, email format, contact format
  then contact minimum length, identifier uniqueness; it stops at the first failing check
  and reports only that check's error, except that the presence check reports a
  ``required'' message for each empty field and fails as a unit.  Stated as: on an array
  of records, \<open>validateForm\<close> returns what \<open>validate_in_order\<close> returns, the first
  violated check of \<open>check_order\<close> with its messages on cleared error fields.
\<close>

theorem validateForm_checks_in_order:
  assumes "None \<notin> set (students st)"
  shows "validateForm p st =
           (Inr (fst (validate_in_order p st)), snd (validate_in_order p st))"
proof (cases "other_has_identifier (students st) (studentId p) (editIndex st)")
  case True
  with findIndex_duplicate [OF assms] obtain d where
    "findIndex 0 (students st) (studentId p) (editIndex st) = Inr (Some d)"
    by blast
  with True show ?thesis
    by (simp add: validateForm_def validate_in_order_def check_order_def show_messages_def
          clearErrors_def Let_def)
next
  case False
  with findIndex_duplicate [OF assms, of "studentId p" "editIndex st"]
    findIndex_Inr_Some [OF assms, of 0 "studentId p" "editIndex st"]
  have "findIndex 0 (students st) (studentId p) (editIndex st) = Inr None"
    by auto
  with False show ?thesis
    by (simp add: validateForm_def validate_in_order_def check_order_def show_messages_def
          clearErrors_def Let_def)
qed

theorem validateForm_checks_in_order_witness:
  "None \<notin> set (students initial) \<and>
   validateForm blank_name_and_email initial =
     (Inr False, initial\<lparr>nameError := ''Name is required.'', emailError := ''Email is required.''\<rparr>) \<and>
   None \<notin> set (students one_student) \<and>
   validateForm ann one_student =
     (Inr False, one_student\<lparr>studentIdError := ''This Student ID already exists.''\<rparr>)"
proof -
  have h0: "None \<notin> set (students initial)"
    by code_simp
  have h1: "None \<notin> set (students one_student)"
    by code_simp
  have e0: "validate_in_order blank_name_and_email initial =
      (False, initial\<lparr>nameError := ''Name is required.'', emailError := ''Email is required.''\<rparr>)"
    by code_simp
  have e1: "validate_in_order ann one_student =
      (False, one_student\<lparr>studentIdError := ''This Student ID already exists.''\<rparr>)"
    by code_simp
  from validateForm_checks_in_order [OF h0, of blank_name_and_email]
    validateForm_checks_in_order [OF h1, of ann] h0 h1
  show ?thesis
    by (simp add: e0 e1)
qed




text \<open>
  Claim C6.  A confirmed delete at a valid position \<open>i\<close> of a collection of length
  \<open>n\<close> leaves a collection of length \<open>n - 1\<close>: the records before \<open>i\<close> stay in
  place, those after \<open>i\<close> move down by one, and the result is persisted.
\<close>

theorem delete_removes_position:
  assumes "i < length (students st)"
  shows "length (students (deleteStudent i True st)) = length (students st) - 1 \<and>
         (\<forall>j < i. students (deleteStudent i True st) ! j = students st ! j) \<and>
         (\<forall>j. i \<le> j \<and> j < length (students st) - 1 \<longrightarrow>
              students (deleteStudent i True st) ! j = students st ! Suc j) \<and>
         storage (deleteStudent i True st) =
           Some (JSON_stringify (students (deleteStudent i True st)))"
proof -
  have s: "students (deleteStudent i True st) = take i (students st) @ drop (Suc i) (students st)"
    by (simp add: deleteStudent_def saveStudents_def splice1_def)
  have "length (students (deleteStudent i True st)) = length (students st) - 1"
    using assms by (simp add: s)
  moreover have "\<forall>j < i. students (deleteStudent i True st) ! j = students st ! j"
    using assms by (simp add: s nth_append)
  moreover have "\<forall>j. i \<le> j \<and> j < length (students st) - 1 \<longrightarrow>
      students (deleteStudent i True st) ! j = students st ! Suc j"
    using assms by (auto simp: s nth_append min_def)
  moreover have "storage (deleteStudent i True st) =
      Some (JSON_stringify (students (deleteStudent i True st)))"
    by (simp add: deleteStudent_def saveStudents_def)
  ultimately show ?thesis
    by blast
qed

theorem delete_removes_position_witness:
  "0 < length (students editing_first) \<and>
   length (students (deleteStudent 0 True editing_first)) = 1 \<and>
   students (deleteStudent 0 True editing_first) ! 0 = Some bob \<and>
   storage (deleteStudent 0 True editing_first) =
     Some (JSON_stringify (students (deleteStudent 0 True editing_first)))"
proof -
  have xs: "students editing_first = [Some ann, Some bob]"
    by (simp add: editing_first_def)
  have l: "0 < length (students editing_first)"
    by (simp add: xs)
  from delete_removes_position [OF l] l show ?thesis
    by (simp add: xs)
qed

text \<open>
  Claim C7.  When validation does not accept the candidate, the add and the commit-edit
  transitions leave the record sequence and the persisted collection as they were.
\<close>

theorem failed_validation_keeps_store:
  assumes "fst (validateForm (payload_of input) st) \<noteq> Inr True"
  shows "students (onSubmit input st) = students st \<and>
         storage (onSubmit input st) = storage st \<and>
         students (onUpdateClick input st) = students st \<and>
         storage (onUpdateClick input st) = storage st"
proof -
  obtain res st1 where v: "validateForm (payload_of input) st = (res, st1)"
    by (cases "validateForm (payload_of input) st")
  with assms have "res \<noteq> Inr True"
    by simp
  then have "onSubmit input st = st1" and "onUpdateClick input st = st1"
    using v by (auto simp: onSubmit_def onUpdateClick_def split: sum.splits bool.splits)
  moreover from v validateForm_store [of "payload_of input" st]
  have "students st1 = students st" and "storage st1 = storage st"
    by simp_all
  ultimately show ?thesis
    by simp
qed

theorem failed_validation_keeps_store_witness:
  "fst (validateForm (payload_of ann) one_student) \<noteq> Inr True \<and>
   students (onSubmit ann one_student) = [Some ann] \<and>
   storage (onSubmit ann one_student) = Some (JSON_stringify [Some ann]) \<and>
   students (onUpdateClick ann one_student) = [Some ann] \<and>
   storage (onUpdateClick ann one_student) = Some (JSON_stringify [Some ann])"
proof -
  have "fst (validateForm (payload_of ann) one_student) = Inr False"
    by code_simp
  then have h: "fst (validateForm (payload_of ann) one_student) \<noteq> Inr True"
    by simp
  from failed_validation_keeps_store [OF h] h show ?thesis
    by (simp add: one_student_def)
qed

text \<open>
  Claim C8.  Without an active edit session, the replace operation leaves the record
  sequence and the persisted collection unchanged: \<open>updateStudent\<close> returns at once, and
  so the update handler changes neither.
\<close>

theorem replace_without_edit_session:
  assumes "editIndex st = None"
  shows "updateStudent p st = st \<and>
         students (onUpdateClick input st) = students st \<and>
         storage (onUpdateClick input st) = storage st"
proof -
  have u: "updateStudent q s = s" if "editIndex s = None" for q s
    using that by (simp add: updateStudent_def)
  obtain res st1 where v: "validateForm (payload_of input) st = (res, st1)"
    by (cases "validateForm (payload_of input) st")
  with validateForm_store [of "payload_of input" st] assms
  have st1: "students st1 = students st" "storage st1 = storage st" "editIndex st1 = None"
    by simp_all
  have "onUpdateClick input st = st1"
    using v u [OF st1(3)] by (auto simp: onUpdateClick_def split: sum.splits bool.splits)
  with st1 u [OF assms] show ?thesis
    by simp
qed

theorem replace_without_edit_session_witness:
  "editIndex one_student = None \<and> updateStudent bob one_student = one_student \<and>
   students (onUpdateClick bob one_student) = [Some ann] \<and>
   storage (onUpdateClick bob one_student) = Some (JSON_stringify [Some ann])"
proof -
  have h: "editIndex one_student = None"
    by (simp add: one_student_def)
  from replace_without_edit_session [OF h, of bob bob] h show ?thesis
    by (simp add: one_student_def)
qed

text \<open>
  Claim C9.  A confirmed delete at a position that equals or invalidates the edit target
  returns the controller to Idle, so that no later commit acts on a stale target.
  \<open>deleteStudent\<close> never assigns \<open>editIndex\<close>: with two records and the first open for
  editing, deleting the first leaves \<open>editIndex\<close> at 0, and the next commit replaces the
  other record.
\<close>

theorem delete_keeps_edit_target:
  "editIndex (deleteStudent index confirmed st) = editIndex st \<and>
   students (run [Submit ann, Submit bob, EditClick 0, DeleteClick 0 True] initial) = [Some bob] \<and>
   editIndex (run [Submit ann, Submit bob, EditClick 0, DeleteClick 0 True] initial) = Some 0 \<and>
   students (run [Submit ann, Submit bob, EditClick 0, DeleteClick 0 True, UpdateClick cy] initial) =
     [Some cy]"
proof -
  have "editIndex (deleteStudent index confirmed st) = editIndex st"
    by (simp add: deleteStudent_def saveStudents_def)
  moreover have
    "students (run [Submit ann, Submit bob, EditClick 0, DeleteClick 0 True] initial) = [Some bob] \<and>
     editIndex (run [Submit ann, Submit bob, EditClick 0, DeleteClick 0 True] initial) = Some 0 \<and>
     students (run [Submit ann, Submit bob, EditClick 0, DeleteClick 0 True, UpdateClick cy] initial) =
       [Some cy]"
    by code_simp
  ultimately show ?thesis
    by blast
qed

text \<open>
  Claim C10.  Load returns the empty sequence exactly when the stored value is absent,
  fails to parse, or parses to a falsy value; a truthy parsed value is returned unchanged.
  As stated the ``exactly when'' fails: the text of an empty array is present, parses and
  is truthy, and load returns the empty sequence.
\<close>

theorem load_empty_array_counterexample:
  "JSON_parse (js ''[]'') = Inr (JArr []) \<and> ToBoolean (JArr []) \<and>
   loadStudents (Some (js ''[]'')) = JArr []"
  by code_simp

text \<open>
  Claim C10, amended.  Load returns the empty sequence exactly when the stored value is
  absent, fails to parse, parses to a falsy value (null, false, a number whose double is
  zero, or the empty string), or parses to the empty array; when the stored value parses
  to a truthy value, load returns that value unchanged, whatever its shape.
\<close>

theorem load_characterisation:
  "(loadStudents item = JArr [] \<longleftrightarrow>
      item = None \<or>
      (\<exists>text. item = Some text \<and>
         (JSON_parse text = Inl SyntaxError \<or>
          (\<exists>v. JSON_parse text = Inr v \<and> (\<not> ToBoolean v \<or> v = JArr []))))) \<and>
   (\<forall>text v. item = Some text \<and> JSON_parse text = Inr v \<and> ToBoolean v \<longrightarrow>
      loadStudents item = v) \<and>
   (\<forall>v. \<not> ToBoolean v \<longleftrightarrow>
      v = JNull \<or> v = JBool False \<or> (\<exists>m e. v = JNum m e \<and> rounds_to_zero m e) \<or>
      v = JStr [])"
proof (intro conjI allI impI)
  show "loadStudents item = JArr [] \<longleftrightarrow>
      item = None \<or>
      (\<exists>text. item = Some text \<and>
         (JSON_parse text = Inl SyntaxError \<or>
          (\<exists>v. JSON_parse text = Inr v \<and> (\<not> ToBoolean v \<or> v = JArr []))))"
    by (cases item)
       (auto simp: loadStudents_def JSON_parse_null split: sum.splits dest: JSON_parse_error)
next
  fix t v
  assume "item = Some t \<and> JSON_parse t = Inr v \<and> ToBoolean v"
  then show "loadStudents item = v"
    by (simp add: loadStudents_def)
next
  fix v
  show "\<not> ToBoolean v \<longleftrightarrow>
      v = JNull \<or> v = JBool False \<or> (\<exists>m e. v = JNum m e \<and> rounds_to_zero m e) \<or> v = JStr []"
    by (rule falsy_values)
qed

theorem load_characterisation_witness:
  "JSON_parse (js ''42'') = Inr (JNum 42 0) \<and> ToBoolean (JNum 42 0) \<and>
   loadStudents (Some (js ''42'')) = JNum 42 0 \<and>
   JSON_parse (js ''false'') = Inr (JBool False) \<and> \<not> ToBoolean (JBool False) \<and>
   loadStudents (Some (js ''false'')) = JArr []"
proof -
  have p: "JSON_parse (js ''42'') = Inr (JNum 42 0)" and t: "ToBoolean (JNum 42 0)"
    by code_simp+
  have q: "JSON_parse (js ''false'') = Inr (JBool False)"
    by code_simp
  from load_characterisation [of "Some (js ''42'')"] p t
  have "loadStudents (Some (js ''42'')) = JNum 42 0"
    by blast
  moreover from load_characterisation [of "Some (js ''false'')"] q
  have "loadStudents (Some (js ''false'')) = JArr []"
    by simp
  ultimately show ?thesis
    using p t q by simp
qed

end
